theory Spec2Isabelle
  imports Main "HOL-Library.AList"
begin

section \<open>The navigation service of web-ng (router.service.ts)\<close>

text \<open>
  The theory embeds \<^verbatim>\<open>NavigationService\<close> of
  \<^verbatim>\<open>src/web-ng/src/app/services/router/router.service.ts\<close>.
  A JavaScript string is modelled by the list of the bytes of its UTF-8 form
  (\<^typ>\<open>string\<close>); a string with an unpaired surrogate has no such form and is outside
  the model. A value of type \<^verbatim>\<open>string | null\<close> is a \<^typ>\<open>string option\<close>, where
  \<^const>\<open>None\<close> stands for \<^verbatim>\<open>null\<close> and for \<^verbatim>\<open>undefined\<close>: the source only tests such
  values for truthiness or hands them on. Every exception is a value of \<open>error\<close>.
\<close>

datatype error = TypeError | URIError

text \<open>Truthiness of a \<^verbatim>\<open>string | null\<close>: \<^verbatim>\<open>null\<close> and the empty string are falsy.\<close>

definition truthy :: "string option \<Rightarrow> bool" where
  "truthy v = (case v of None \<Rightarrow> False | Some s \<Rightarrow> s \<noteq> [])"

text \<open>The expression \<^verbatim>\<open>fragment || ''\<close>.\<close>

definition orEmpty :: "string option \<Rightarrow> string" where
  "orEmpty v = (case v of None \<Rightarrow> [] | Some s \<Rightarrow> if s \<noteq> [] then s else [])"

subsection \<open>The URI component codec\<close>

text \<open>
  Modelled from the spec: the fragment grammar of section 6 (\<^verbatim>\<open>key1=value1&key2=value2\<close>,
  values URL-encoded) is implemented by the class \<^verbatim>\<open>HttpParams\<close> of
  \<^verbatim>\<open>@angular/common/http\<close> with its default codec, which rests on the built-ins
  \<^verbatim>\<open>encodeURIComponent\<close> and \<^verbatim>\<open>decodeURIComponent\<close>. None of that code is part of the
  repository; this subsection and the next model it the way the library and the
  language standard define it.
\<close>

definition alphanumeric :: string where
  "alphanumeric = ''ABCDEFGHIJKLMNOPQRSTUVWXYZabcdefghijklmnopqrstuvwxyz0123456789''"

text \<open>The characters \<^verbatim>\<open>encodeURIComponent\<close> leaves alone: letters, digits and \<^verbatim>\<open>-_.!~*'()\<close>.\<close>

definition uriUnescaped :: string where
  "uriUnescaped = alphanumeric @ ''-_.!~*()'' @ [CHR 0x27]"

definition hexDigit :: "nat \<Rightarrow> char" where
  "hexDigit n = ''0123456789ABCDEF'' ! (n mod 16)"

definition percentEscape :: "char \<Rightarrow> string" where
  "percentEscape c = [CHR ''%'', hexDigit (of_char c div 16), hexDigit (of_char c mod 16)]"

definition encodeURIComponent :: "string \<Rightarrow> string" where
  "encodeURIComponent s =
     concat (map (\<lambda>c. if c \<in> set uriUnescaped then [c] else percentEscape c) s)"

definition hexValue :: "char \<Rightarrow> nat option" where
  "hexValue c =
     (let n = of_char c :: nat in
      if 48 \<le> n \<and> n \<le> 57 then Some (n - 48)
      else if 65 \<le> n \<and> n \<le> 70 then Some (n - 55)
      else if 97 \<le> n \<and> n \<le> 102 then Some (n - 87)
      else None)"

definition hexByte :: "char \<Rightarrow> char \<Rightarrow> nat option" where
  "hexByte a b =
     (case hexValue a of None \<Rightarrow> None
      | Some x \<Rightarrow> (case hexValue b of None \<Rightarrow> None | Some y \<Rightarrow> Some (16 * x + y)))"

text \<open>The number of leading one bits of an octet with its top bit set.\<close>

definition leadingOnes :: "nat \<Rightarrow> nat" where
  "leadingOnes B =
     (if B < 192 then 1 else if B < 224 then 2 else if B < 240 then 3
      else if B < 248 then 4 else 5)"

text \<open>Whether the octets are the UTF-8 form of one code point (no overlong form, no
  surrogate, nothing beyond U+10FFFF). The first octet has two to four leading one bits
  and the others have passed the continuation test.\<close>

definition utf8Value :: "nat list \<Rightarrow> nat" where
  "utf8Value octets =
     (case octets of [] \<Rightarrow> 0
      | B # rest \<Rightarrow> foldl (\<lambda>v b. v * 64 + b mod 64) (B mod 2 ^ (7 - length octets)) rest)"

definition validUtf8 :: "nat list \<Rightarrow> bool" where
  "validUtf8 octets =
     (let V = utf8Value octets in
      if length octets = 2 then 128 \<le> V
      else if length octets = 3 then 2048 \<le> V \<and> \<not> (55296 \<le> V \<and> V \<le> 57343)
      else 65536 \<le> V \<and> V \<le> 1114111)"

definition emit :: "string \<Rightarrow> error + string \<Rightarrow> error + string" where
  "emit s r = (case r of Inl e \<Rightarrow> Inl e | Inr t \<Rightarrow> Inr (s @ t))"

text \<open>
  The loop of \<^verbatim>\<open>decodeURIComponent\<close>. The first argument counts the continuation
  octets the current escape sequence still needs, the second holds the octets of that
  sequence read so far. Every failure of the built-in is a \<^verbatim>\<open>URIError\<close>.
\<close>

fun decodeLoop :: "nat \<Rightarrow> nat list \<Rightarrow> string \<Rightarrow> error + string" where
  "decodeLoop 0 octets [] = Inr []"
| "decodeLoop (Suc j) octets [] = Inl URIError"
| "decodeLoop 0 octets (c # cs) =
     (if c \<noteq> CHR ''%'' then emit [c] (decodeLoop 0 [] cs)
      else (case cs of
          a # b # rest \<Rightarrow>
            (case hexByte a b of
               None \<Rightarrow> Inl URIError
             | Some B \<Rightarrow>
                 if B < 128 then emit [char_of B] (decodeLoop 0 [] rest)
                 else if leadingOnes B = 1 \<or> leadingOnes B > 4 then Inl URIError
                 else decodeLoop (leadingOnes B - 1) [B] rest)
        | _ \<Rightarrow> Inl URIError))"
| "decodeLoop (Suc j) octets (c # cs) =
     (if c \<noteq> CHR ''%'' then Inl URIError
      else (case cs of
          a # b # rest \<Rightarrow>
            (case hexByte a b of
               None \<Rightarrow> Inl URIError
             | Some B \<Rightarrow>
                 if B div 64 \<noteq> 2 then Inl URIError
                 else if j = 0 then
                   (if validUtf8 (octets @ [B])
                    then emit (map char_of (octets @ [B])) (decodeLoop 0 [] rest)
                    else Inl URIError)
                 else decodeLoop j (octets @ [B]) rest)
        | _ \<Rightarrow> Inl URIError))"

definition decodeURIComponent :: "string \<Rightarrow> error + string" where
  "decodeURIComponent s = decodeLoop 0 [] s"

text \<open>Upper case of an ASCII letter, for the \<^verbatim>\<open>i\<close> flag of the regular expressions.\<close>

definition upperCase :: "char \<Rightarrow> char" where
  "upperCase c =
     (if 97 \<le> (of_char c :: nat) \<and> (of_char c :: nat) \<le> 122
      then char_of (of_char c - 32 :: nat) else c)"

text \<open>\<^verbatim>\<open>s.replace(/%XY/gi, r)\<close> for two upper-case hexadecimal digits \<open>X\<close> and \<open>Y\<close>.\<close>

fun replaceEscape :: "char \<Rightarrow> char \<Rightarrow> char \<Rightarrow> string \<Rightarrow> string" where
  "replaceEscape X Y r (c # a # b # cs) =
     (if c = CHR ''%'' \<and> upperCase a = X \<and> upperCase b = Y
      then r # replaceEscape X Y r cs
      else c # replaceEscape X Y r (a # b # cs))"
| "replaceEscape X Y r cs = cs"

text \<open>\<^verbatim>\<open>standardEncoding\<close> of the library: \<^verbatim>\<open>encodeURIComponent\<close>, then the escapes of
  \<^verbatim>\<open>@ : $ , ; + = ? /\<close> are turned back into the characters.\<close>

definition standardEncoding :: "string \<Rightarrow> string" where
  "standardEncoding v =
     (replaceEscape CHR ''2'' CHR ''F'' CHR ''/''
     (replaceEscape CHR ''3'' CHR ''F'' CHR ''?''
     (replaceEscape CHR ''3'' CHR ''D'' CHR ''=''
     (replaceEscape CHR ''2'' CHR ''B'' CHR ''+''
     (replaceEscape CHR ''3'' CHR ''B'' CHR '';''
     (replaceEscape CHR ''2'' CHR ''C'' CHR '',''
     (replaceEscape CHR ''2'' CHR ''4'' CHR ''$''
     (replaceEscape CHR ''3'' CHR ''A'' CHR '':''
     (replaceEscape CHR ''4'' CHR ''0'' CHR ''@''
        (encodeURIComponent v))))))))))"

subsection \<open>HttpParams\<close>

text \<open>
  Modelled from the spec: \<^verbatim>\<open>HttpParams\<close> is the immutable multi-map of the library, held
  in a JavaScript \<^verbatim>\<open>Map<string, string[]>\<close>: the keys are distinct and keep the order of
  their first insertion. \<^const>\<open>AList.update\<close> is \<^verbatim>\<open>Map.set\<close> (an existing key keeps its
  place, a new one goes last) and \<^const>\<open>AList.delete\<close> is \<^verbatim>\<open>Map.delete\<close>.
\<close>

type_synonym HttpParams = "(string \<times> string list) list"

text \<open>\<^verbatim>\<open>s.split(sep)\<close> for a separator of one character.\<close>

fun split :: "char \<Rightarrow> string \<Rightarrow> string list" where
  "split sep [] = [[]]"
| "split sep (c # cs) =
     (if c = sep then [] # split sep cs
      else (case split sep cs of p # ps \<Rightarrow> (c # p) # ps | [] \<Rightarrow> [[c]]))"

text \<open>\<^verbatim>\<open>xs.join(sep)\<close>.\<close>

fun join :: "string \<Rightarrow> string list \<Rightarrow> string" where
  "join sep [] = []"
| "join sep [x] = x"
| "join sep (x # y # ys) = x @ sep @ join sep (y # ys)"

text \<open>One piece of the raw string: the key and the value around the first \<^verbatim>\<open>=\<close>, or the
  whole piece as the key and the empty value when there is no \<^verbatim>\<open>=\<close>.\<close>

definition parseParam :: "string \<Rightarrow> error + (string \<times> string)" where
  "parseParam param =
     (if CHR ''='' \<notin> set param then
        (case decodeURIComponent param of Inl e \<Rightarrow> Inl e | Inr key \<Rightarrow> Inr (key, []))
      else
        (case decodeURIComponent (takeWhile (\<lambda>c. c \<noteq> CHR ''='') param) of
           Inl e \<Rightarrow> Inl e
         | Inr key \<Rightarrow>
             (case decodeURIComponent (tl (dropWhile (\<lambda>c. c \<noteq> CHR ''='') param)) of
                Inl e \<Rightarrow> Inl e
              | Inr val \<Rightarrow> Inr (key, val))))"

text \<open>The body of \<^verbatim>\<open>params.forEach\<close> in \<^verbatim>\<open>paramParser\<close>, over the pieces from left to
  right: \<^verbatim>\<open>list = map.get(key) || []; list.push(val); map.set(key, list)\<close>.\<close>

fun parseParams :: "HttpParams \<Rightarrow> string list \<Rightarrow> error + HttpParams" where
  "parseParams m [] = Inr m"
| "parseParams m (param # params) =
     (case parseParam param of
        Inl e \<Rightarrow> Inl e
      | Inr (key, val) \<Rightarrow>
          parseParams
            (AList.update key ((case map_of m key of None \<Rightarrow> [] | Some list \<Rightarrow> list) @ [val]) m)
            params)"

definition paramParser :: "string \<Rightarrow> error + HttpParams" where
  "paramParser rawParams =
     (if length rawParams > 0 then parseParams [] (split CHR ''&'' rawParams) else Inr [])"

text \<open>\<^verbatim>\<open>new HttpParams({ fromString: s })\<close>: an empty string is falsy and leaves the map
  empty without calling the parser.\<close>

definition HttpParams_fromString :: "string \<Rightarrow> error + HttpParams" where
  "HttpParams_fromString s = (if s \<noteq> [] then paramParser s else Inr [])"

text \<open>\<^verbatim>\<open>params.get(param)\<close>: the first value of the key, or \<^verbatim>\<open>null\<close>.\<close>

definition HttpParams_get :: "HttpParams \<Rightarrow> string \<Rightarrow> string option" where
  "HttpParams_get params param =
     (case map_of params param of
        None \<Rightarrow> None
      | Some res \<Rightarrow> (case res of [] \<Rightarrow> None | v # _ \<Rightarrow> Some v))"

text \<open>\<^verbatim>\<open>params.set(param, value)\<close> replaces all values of the key by the one value.\<close>

definition HttpParams_set :: "HttpParams \<Rightarrow> string \<Rightarrow> string \<Rightarrow> HttpParams" where
  "HttpParams_set params param val = AList.update param [val] params"

text \<open>\<^verbatim>\<open>params.delete(param)\<close> removes the key with all its values.\<close>

definition HttpParams_delete :: "HttpParams \<Rightarrow> string \<Rightarrow> HttpParams" where
  "HttpParams_delete params param = AList.delete param params"

definition HttpParams_toString :: "HttpParams \<Rightarrow> string" where
  "HttpParams_toString params =
     join ''&''
       (filter (\<lambda>param. param \<noteq> [])
          (map (\<lambda>(key, vals).
                  join ''&'' (map (\<lambda>v. standardEncoding key @ ''='' @ standardEncoding v) vals))
             params))"

subsection \<open>The side navigation mode\<close>

datatype SideNavMode = LAYER_LIST | OBSERVATION | FEATURE

definition LAYER_ID_FRAGMENT_PARAM :: string where
  "LAYER_ID_FRAGMENT_PARAM = ''l''"

definition FEATURE_ID_FRAGMENT_PARAM :: string where
  "FEATURE_ID_FRAGMENT_PARAM = ''f''"

definition OBSERVATION_ID_FRAGMENT_PARAM :: string where
  "OBSERVATION_ID_FRAGMENT_PARAM = ''o''"

definition PROJECT_ID_NEW :: string where
  "PROJECT_ID_NEW = ''new''"

definition PROJECT_ID :: string where
  "PROJECT_ID = ''projectId''"

definition PROJECT_SEGMENT :: string where
  "PROJECT_SEGMENT = ''project''"

definition SIGN_IN_SEGMENT :: string where
  "SIGN_IN_SEGMENT = ''signin''"

definition fragmentParamsToSideNavMode :: "HttpParams \<Rightarrow> SideNavMode" where
  "fragmentParamsToSideNavMode params =
     (if truthy (HttpParams_get params OBSERVATION_ID_FRAGMENT_PARAM) then OBSERVATION
      else if truthy (HttpParams_get params FEATURE_ID_FRAGMENT_PARAM) then FEATURE
      else LAYER_LIST)"

subsection \<open>Observables\<close>

text \<open>
  An observable is modelled by the sequence of notifications it delivers to one
  subscriber. The operator \<^verbatim>\<open>map\<close> of rxjs applies its function to every value; when
  the function throws, the error is delivered and nothing follows it.
\<close>

datatype 'a Notification = Next 'a | Error error

type_synonym 'a Observable = "'a Notification list"

fun rx_map :: "('a \<Rightarrow> error + 'b) \<Rightarrow> 'a Observable \<Rightarrow> 'b Observable" where
  "rx_map project [] = []"
| "rx_map project (Next x # ns) =
     (case project x of Inl e \<Rightarrow> [Error e] | Inr y \<Rightarrow> Next y # rx_map project ns)"
| "rx_map project (Error e # ns) = [Error e]"

subsection \<open>The router and the activated route\<close>

text \<open>
  The collaborators of the service, with the parts of them the service reads.
  \<open>primary\<close> is \<^verbatim>\<open>router.parseUrl(router.url).root.children['primary']\<close> rendered by
  \<^verbatim>\<open>toString()\<close>, and \<^const>\<open>None\<close> when the root segment has no primary child
  (\<^verbatim>\<open>undefined\<close>). \<open>snapshot_fragment\<close> is \<^verbatim>\<open>route.snapshot.fragment\<close>.
\<close>

record Router =
  primary :: "string option"

type_synonym ParamMap = "string \<Rightarrow> string option"

record ActivatedRoute =
  snapshot_fragment :: "string option"
  paramMap :: "ParamMap Observable"
  fragment :: "string option Observable"

text \<open>The options of a navigation; the source only ever fills in \<open>extras_fragment\<close>.\<close>

record NavigationExtras =
  extras_fragment :: "string option"
  replaceUrl :: "bool option"

text \<open>A call of \<^verbatim>\<open>router.navigate(commands, extras)\<close>, where \<^const>\<open>None\<close> is a call without
  the second argument, or of \<^verbatim>\<open>router.navigateByUrl(url)\<close>.\<close>

datatype Navigation =
  Navigate "string list" "NavigationExtras option"
  | NavigateByUrl string

subsection \<open>NavigationService\<close>

text \<open>The fields of the class; \<^const>\<open>None\<close> is a field that is still \<^verbatim>\<open>undefined\<close>. The
  field \<^verbatim>\<open>layerId$\<close> is written \<open>layerId_dollar\<close>, and so on.\<close>

record NavigationService =
  router :: Router
  activatedRoute :: "ActivatedRoute option"
  projectId_dollar :: "string option Observable option"
  layerId_dollar :: "string option Observable option"
  featureId_dollar :: "string option Observable option"
  observationId_dollar :: "string option Observable option"
  sideNavMode_dollar :: "SideNavMode Observable option"

definition constructor :: "Router \<Rightarrow> NavigationService" where
  "constructor r =
     \<lparr>router = r, activatedRoute = None, projectId_dollar = None, layerId_dollar = None,
      featureId_dollar = None, observationId_dollar = None, sideNavMode_dollar = None\<rparr>"

text \<open>The stream \<^verbatim>\<open>fragmentParams$\<close> of \<^verbatim>\<open>init\<close>.\<close>

definition fragmentParams_dollar :: "ActivatedRoute \<Rightarrow> HttpParams Observable" where
  "fragmentParams_dollar route =
     rx_map (\<lambda>fragment. HttpParams_fromString (orEmpty fragment)) (fragment route)"

definition init :: "NavigationService \<Rightarrow> ActivatedRoute \<Rightarrow> NavigationService" where
  "init this route =
     this\<lparr>activatedRoute := Some route,
          projectId_dollar := Some (rx_map (\<lambda>params. Inr (params PROJECT_ID)) (paramMap route)),
          layerId_dollar :=
            Some (rx_map (\<lambda>params. Inr (HttpParams_get params LAYER_ID_FRAGMENT_PARAM))
                    (fragmentParams_dollar route)),
          featureId_dollar :=
            Some (rx_map (\<lambda>params. Inr (HttpParams_get params FEATURE_ID_FRAGMENT_PARAM))
                    (fragmentParams_dollar route)),
          observationId_dollar :=
            Some (rx_map (\<lambda>params. Inr (HttpParams_get params OBSERVATION_ID_FRAGMENT_PARAM))
                    (fragmentParams_dollar route)),
          sideNavMode_dollar :=
            Some (rx_map (\<lambda>params. Inr (fragmentParamsToSideNavMode params))
                    (fragmentParams_dollar route))\<rparr>"

text \<open>The accessors return the field as it is: the non-null assertion \<^verbatim>\<open>!\<close> of TypeScript
  is erased by the compiler and checks nothing when the program runs.\<close>

definition getProjectId_dollar ::
  "NavigationService \<Rightarrow> error + string option Observable option" where
  "getProjectId_dollar this = Inr (projectId_dollar this)"

definition getLayerId_dollar ::
  "NavigationService \<Rightarrow> error + string option Observable option" where
  "getLayerId_dollar this = Inr (layerId_dollar this)"

definition getFeatureId_dollar ::
  "NavigationService \<Rightarrow> error + string option Observable option" where
  "getFeatureId_dollar this = Inr (featureId_dollar this)"

definition getObservationId_dollar ::
  "NavigationService \<Rightarrow> error + string option Observable option" where
  "getObservationId_dollar this = Inr (observationId_dollar this)"

definition getSideNavMode_dollar ::
  "NavigationService \<Rightarrow> error + SideNavMode Observable option" where
  "getSideNavMode_dollar this = Inr (sideNavMode_dollar this)"

text \<open>Reading \<^verbatim>\<open>snapshot\<close> of an \<^verbatim>\<open>activatedRoute\<close> that is \<^verbatim>\<open>undefined\<close> is a
  \<^verbatim>\<open>TypeError\<close>.\<close>

definition getFragmentParams :: "NavigationService \<Rightarrow> error + HttpParams" where
  "getFragmentParams this =
     (case activatedRoute this of
        None \<Rightarrow> Inl TypeError
      | Some route \<Rightarrow> HttpParams_fromString (orEmpty (snapshot_fragment route)))"

text \<open>Calling \<^verbatim>\<open>toString\<close> on a primary child that is \<^verbatim>\<open>undefined\<close> is a
  \<^verbatim>\<open>TypeError\<close>.\<close>

definition setFragmentParams :: "NavigationService \<Rightarrow> HttpParams \<Rightarrow> error + Navigation" where
  "setFragmentParams this params =
     (case primary (router this) of
        None \<Rightarrow> Inl TypeError
      | Some primaryUrl \<Rightarrow>
          if HttpParams_toString params \<noteq> [] then
            Inr (Navigate [primaryUrl]
                   (Some \<lparr>extras_fragment = Some (HttpParams_toString params),
                          replaceUrl = None\<rparr>))
          else Inr (Navigate [primaryUrl] None))"

text \<open>The loop of \<^verbatim>\<open>setFragmentParam\<close> over the entries of \<open>updates\<close>.\<close>

fun applyUpdates :: "HttpParams \<Rightarrow> (string \<times> string option) list \<Rightarrow> HttpParams" where
  "applyUpdates params [] = params"
| "applyUpdates params ((key, val) # updates) =
     applyUpdates
       (case val of
          Some v \<Rightarrow> if v \<noteq> [] then HttpParams_set params key v else HttpParams_delete params key
        | None \<Rightarrow> HttpParams_delete params key)
       updates"

definition setFragmentParam ::
  "NavigationService \<Rightarrow> (string \<times> string option) list \<Rightarrow> error + Navigation" where
  "setFragmentParam this updates =
     (case getFragmentParams this of
        Inl e \<Rightarrow> Inl e
      | Inr params \<Rightarrow> setFragmentParams this (applyUpdates params updates))"

definition getFeatureId :: "NavigationService \<Rightarrow> error + string option" where
  "getFeatureId this =
     (case getFragmentParams this of
        Inl e \<Rightarrow> Inl e
      | Inr params \<Rightarrow> Inr (HttpParams_get params FEATURE_ID_FRAGMENT_PARAM))"

definition getObservationId :: "NavigationService \<Rightarrow> error + string option" where
  "getObservationId this =
     (case getFragmentParams this of
        Inl e \<Rightarrow> Inl e
      | Inr params \<Rightarrow> Inr (HttpParams_get params OBSERVATION_ID_FRAGMENT_PARAM))"

definition setFeatureId :: "NavigationService \<Rightarrow> string option \<Rightarrow> error + Navigation" where
  "setFeatureId this ident =
     (case getObservationId this of
        Inl e \<Rightarrow> Inl e
      | Inr observationId \<Rightarrow>
          setFragmentParam this
            ((FEATURE_ID_FRAGMENT_PARAM, ident) #
             (if truthy observationId then [(OBSERVATION_ID_FRAGMENT_PARAM, None)] else [])))"

definition setObservationId :: "NavigationService \<Rightarrow> string option \<Rightarrow> error + Navigation" where
  "setObservationId this ident = setFragmentParam this [(OBSERVATION_ID_FRAGMENT_PARAM, ident)]"

text \<open>
  \<^verbatim>\<open>editObservation\<close> hands the key itself to \<^verbatim>\<open>setFragmentParam\<close>, and the id as a second
  argument that the callee does not have. The loop \<^verbatim>\<open>for (const [key, value] of updates)\<close>
  then runs over the characters of the string, and destructuring a string of one
  character gives that character as the key and \<^verbatim>\<open>undefined\<close> as the value.
\<close>

definition stringEntries :: "string \<Rightarrow> (string \<times> string option) list" where
  "stringEntries s = map (\<lambda>c. ([c], None)) s"

definition editObservation :: "NavigationService \<Rightarrow> string option \<Rightarrow> error + Navigation" where
  "editObservation this ident = setFragmentParam this (stringEntries OBSERVATION_ID_FRAGMENT_PARAM)"

definition setLayerId :: "NavigationService \<Rightarrow> string \<Rightarrow> error + Navigation" where
  "setLayerId this ident = setFragmentParam this [(LAYER_ID_FRAGMENT_PARAM, Some ident)]"

definition selectProject :: "NavigationService \<Rightarrow> string \<Rightarrow> error + Navigation" where
  "selectProject this ident = Inr (NavigateByUrl (PROJECT_SEGMENT @ ''/'' @ ident))"

definition newProject :: "NavigationService \<Rightarrow> error + Navigation" where
  "newProject this = Inr (Navigate [PROJECT_SEGMENT, PROJECT_ID_NEW] None)"

definition signIn :: "NavigationService \<Rightarrow> error + Navigation" where
  "signIn this = Inr (Navigate [SIGN_IN_SEGMENT] None)"

definition signOut :: "NavigationService \<Rightarrow> error + Navigation" where
  "signOut this = Inr (Navigate [''/''] None)"

subsection \<open>Notions used in the statements\<close>

text \<open>
  A navigation asks the router to replace the current history entry when its extras set
  \<^verbatim>\<open>replaceUrl\<close>; a call without it leaves the choice to the router.
\<close>

definition replacesHistory :: "Navigation \<Rightarrow> bool" where
  "replacesHistory nav =
     (case nav of
        Navigate commands extras \<Rightarrow>
          (case extras of None \<Rightarrow> False | Some e \<Rightarrow> replaceUrl e = Some True)
      | NavigateByUrl url \<Rightarrow> False)"

text \<open>A service for the examples: the primary path is \<^verbatim>\<open>project/p1\<close>, and \<^verbatim>\<open>init\<close> has bound
  it to a route whose snapshot holds the given fragment.\<close>

definition router0 :: Router where
  "router0 = \<lparr>primary = Some ''project/p1''\<rparr>"

definition route0 :: "string option \<Rightarrow> ActivatedRoute" where
  "route0 frag = \<lparr>snapshot_fragment = frag, paramMap = [], fragment = []\<rparr>"

definition service0 :: "string option \<Rightarrow> NavigationService" where
  "service0 frag = init (constructor router0) (route0 frag)"

text \<open>
  What the claims ask of a fragment-mutating operation whose resulting fragment map is
  \<open>next\<close>: for the empty map a navigation to the primary path with no extras at all, and
  otherwise a navigation to the primary path whose fragment is the encoded map, a string
  that is not empty.
\<close>

definition targetFor :: "string \<Rightarrow> HttpParams \<Rightarrow> error + Navigation \<Rightarrow> bool" where
  "targetFor primaryUrl next r =
     ((next = [] \<longrightarrow> r = Inr (Navigate [primaryUrl] None)) \<and>
      (next \<noteq> [] \<longrightarrow>
         HttpParams_toString next \<noteq> [] \<and>
         r = Inr (Navigate [primaryUrl]
                (Some \<lparr>extras_fragment = Some (HttpParams_toString next), replaceUrl = None\<rparr>))))"

text \<open>The string that \<^verbatim>\<open>toString\<close> builds for one key of the map.\<close>

definition entryString :: "string \<times> string list \<Rightarrow> string" where
  "entryString = (\<lambda>(key, vals).
       join ''&'' (map (\<lambda>v. standardEncoding key @ ''='' @ standardEncoding v) vals))"

text \<open>The unreserved characters of a URI (RFC 3986): letters, digits and \<^verbatim>\<open>-._~\<close>. A
  string is URL-safe when it consists of them.\<close>

definition unreserved :: string where
  "unreserved = alphanumeric @ ''-._~''"

definition urlSafe :: "string \<Rightarrow> bool" where
  "urlSafe s = (\<forall>c \<in> set s. c \<in> set unreserved)"

text \<open>A fragment map, an ordered mapping from keys to single values, the way
  \<^verbatim>\<open>HttpParams\<close> holds it: every key with the list of its one value.\<close>

definition fragmentMapParams :: "(string \<times> string) list \<Rightarrow> HttpParams" where
  "fragmentMapParams m = map (\<lambda>(key, val). (key, [val])) m"

text \<open>The \<^verbatim>\<open>key=value\<close> pieces of the fragment string of a map whose strings need no
  escaping, and the maps of which the round trip is shown: no key without a value, and
  only URL-safe keys and values.\<close>

definition pieces :: "HttpParams \<Rightarrow> string list" where
  "pieces params = concat (map (\<lambda>(key, vals). map (\<lambda>v. key @ ''='' @ v) vals) params)"

definition safeParams :: "HttpParams \<Rightarrow> bool" where
  "safeParams params =
     (\<forall>(key, vals) \<in> set params. vals \<noteq> [] \<and> urlSafe key \<and> (\<forall>v \<in> set vals. urlSafe v))"

text \<open>The fragment that a navigation carries into the next URL.\<close>

definition navigationFragment :: "Navigation \<Rightarrow> string option" where
  "navigationFragment nav =
     (case nav of
        Navigate commands extras \<Rightarrow>
          (case extras of None \<Rightarrow> None | Some e \<Rightarrow> extras_fragment e)
      | NavigateByUrl url \<Rightarrow> None)"

text \<open>A route whose fragment changes from \<^verbatim>\<open>l=a\<close> to \<^verbatim>\<open>l=a&f=b\<close>: the second event changes
  the feature key only.\<close>

definition route1 :: ActivatedRoute where
  "route1 = \<lparr>snapshot_fragment = Some ''l=a&f=b'', paramMap = [],
             fragment = [Next (Some ''l=a''), Next (Some ''l=a&f=b'')]\<rparr>"





section \<open>Properties\<close>

subsection \<open>The side navigation mode\<close>

text \<open>
  C2, as stated, fails: a key that is present with an empty value does not count. The
  fragment \<^verbatim>\<open>o=\<close> decodes to a map that holds the observation key, and its mode is
  \<^verbatim>\<open>LAYER_LIST\<close>.
\<close>

theorem mode_key_present_counterexample:
  "HttpParams_fromString ''o='' = Inr [(''o'', [[]])] \<and>
   map_of [(''o'', [[]])] OBSERVATION_ID_FRAGMENT_PARAM \<noteq> None \<and>
   fragmentParamsToSideNavMode [(''o'', [[]])] = LAYER_LIST"
  by code_simp

text \<open>
  C2, amended: the mode is a function of the fragment map alone, with fixed precedence. It
  is \<^verbatim>\<open>OBSERVATION\<close> when the first value of the observation key is a non-empty string;
  otherwise \<^verbatim>\<open>FEATURE\<close> when the first value of the feature key is a non-empty string;
  otherwise (the empty map included) \<^verbatim>\<open>LAYER_LIST\<close>.
\<close>

theorem mode_precedence:
  "fragmentParamsToSideNavMode params =
     (if \<exists>v vs. map_of params OBSERVATION_ID_FRAGMENT_PARAM = Some (v # vs) \<and> v \<noteq> []
      then OBSERVATION
      else if \<exists>v vs. map_of params FEATURE_ID_FRAGMENT_PARAM = Some (v # vs) \<and> v \<noteq> []
      then FEATURE
      else LAYER_LIST)"
  by (auto simp: fragmentParamsToSideNavMode_def HttpParams_get_def truthy_def
           split: option.splits list.splits)

text \<open>The four examples of the spec.\<close>

lemma mode_examples:
  "fragmentParamsToSideNavMode [(''o'', [''x'']), (''f'', [''y'']), (''l'', [''z''])] = OBSERVATION"
  "fragmentParamsToSideNavMode [(''f'', [''y'']), (''l'', [''z''])] = FEATURE"
  "fragmentParamsToSideNavMode [(''l'', [''z''])] = LAYER_LIST"
  "fragmentParamsToSideNavMode [] = LAYER_LIST"
  by code_simp+

subsection \<open>Access before init\<close>

text \<open>
  C8, as stated, fails: on a service that \<^verbatim>\<open>init\<close> has not bound, \<^verbatim>\<open>getLayerId$\<close> does not
  fail. It returns the field, which is \<^verbatim>\<open>undefined\<close>.
\<close>

theorem uninitialized_stream_counterexample:
  "getLayerId_dollar (constructor \<lparr>primary = Some ''project/p1''\<rparr>) = Inr None \<and>
   \<not> isl (getLayerId_dollar (constructor \<lparr>primary = Some ''project/p1''\<rparr>))"
  by (simp add: getLayerId_dollar_def constructor_def)

text \<open>
  C8, amended: before \<^verbatim>\<open>init\<close>, each of the five stream accessors returns \<^verbatim>\<open>undefined\<close>
  and raises nothing, and \<^verbatim>\<open>getFeatureId\<close> and \<^verbatim>\<open>getObservationId\<close> fail at once with a
  \<^verbatim>\<open>TypeError\<close>.
\<close>

theorem uninitialized_accessors:
  "getProjectId_dollar (constructor r) = Inr None \<and>
   getLayerId_dollar (constructor r) = Inr None \<and>
   getFeatureId_dollar (constructor r) = Inr None \<and>
   getObservationId_dollar (constructor r) = Inr None \<and>
   getSideNavMode_dollar (constructor r) = Inr None \<and>
   getFeatureId (constructor r) = Inl TypeError \<and>
   getObservationId (constructor r) = Inl TypeError"
  by (simp add: getProjectId_dollar_def getLayerId_dollar_def getFeatureId_dollar_def
      getObservationId_dollar_def getSideNavMode_dollar_def getFeatureId_def
      getObservationId_def getFragmentParams_def constructor_def)

subsection \<open>History entries\<close>

lemma setFragmentParams_no_replace:
  "setFragmentParams this params = Inr nav \<Longrightarrow> \<not> replacesHistory nav"
  by (auto simp: setFragmentParams_def replacesHistory_def split: option.splits if_splits)

lemma setFragmentParam_no_replace:
  "setFragmentParam this updates = Inr nav \<Longrightarrow> \<not> replacesHistory nav"
  by (auto simp: setFragmentParam_def split: sum.splits dest: setFragmentParams_no_replace)

text \<open>
  C6, as stated, fails: \<^verbatim>\<open>signIn\<close> calls \<^verbatim>\<open>router.navigate\<close> with the commands alone, so
  nothing asks the router to replace the current history entry.
\<close>

theorem history_replace_counterexample:
  "signIn (service0 None) = Inr (Navigate [''signin''] None) \<and>
   \<not> replacesHistory (Navigate [''signin''] None)"
  by (simp add: signIn_def SIGN_IN_SEGMENT_def replacesHistory_def)

text \<open>
  C6, amended: no navigation that \<^verbatim>\<open>setFeatureId\<close>, \<^verbatim>\<open>setObservationId\<close>, \<^verbatim>\<open>setLayerId\<close>,
  \<^verbatim>\<open>selectProject\<close>, \<^verbatim>\<open>newProject\<close>, \<^verbatim>\<open>signIn\<close> or \<^verbatim>\<open>signOut\<close> requests asks for the
  current history entry to be replaced; each is left to the router's default.
\<close>

theorem navigation_never_replaces:
  "(\<forall>nav. setFeatureId this i = Inr nav \<longrightarrow> \<not> replacesHistory nav) \<and>
   (\<forall>nav. setObservationId this i = Inr nav \<longrightarrow> \<not> replacesHistory nav) \<and>
   (\<forall>nav. setLayerId this j = Inr nav \<longrightarrow> \<not> replacesHistory nav) \<and>
   (\<forall>nav. selectProject this j = Inr nav \<longrightarrow> \<not> replacesHistory nav) \<and>
   (\<forall>nav. newProject this = Inr nav \<longrightarrow> \<not> replacesHistory nav) \<and>
   (\<forall>nav. signIn this = Inr nav \<longrightarrow> \<not> replacesHistory nav) \<and>
   (\<forall>nav. signOut this = Inr nav \<longrightarrow> \<not> replacesHistory nav)"
  by (auto simp: setFeatureId_def setObservationId_def setLayerId_def selectProject_def
        newProject_def signIn_def signOut_def replacesHistory_def
      split: sum.splits dest: setFragmentParam_no_replace)

theorem navigation_never_replaces_witness:
  "setFeatureId (service0 (Some ''f=abc'')) (Some ''def'') =
     Inr (Navigate [''project/p1''] (Some \<lparr>extras_fragment = Some ''f=def'', replaceUrl = None\<rparr>)) \<and>
   \<not> replacesHistory
     (Navigate [''project/p1''] (Some \<lparr>extras_fragment = Some ''f=def'', replaceUrl = None\<rparr>)) \<and>
   setObservationId (service0 (Some ''f=abc'')) None = Inr (Navigate [''project/p1'']
     (Some \<lparr>extras_fragment = Some ''f=abc'', replaceUrl = None\<rparr>)) \<and>
   \<not> replacesHistory
     (Navigate [''project/p1''] (Some \<lparr>extras_fragment = Some ''f=abc'', replaceUrl = None\<rparr>)) \<and>
   setLayerId (service0 (Some ''f=abc'')) ''q'' = Inr (Navigate [''project/p1'']
     (Some \<lparr>extras_fragment = Some ''f=abc&l=q'', replaceUrl = None\<rparr>)) \<and>
   \<not> replacesHistory
     (Navigate [''project/p1''] (Some \<lparr>extras_fragment = Some ''f=abc&l=q'', replaceUrl = None\<rparr>)) \<and>
   selectProject (service0 (Some ''f=abc'')) ''q'' = Inr (NavigateByUrl ''project/q'') \<and>
   \<not> replacesHistory (NavigateByUrl ''project/q'') \<and>
   newProject (service0 (Some ''f=abc'')) = Inr (Navigate [''project'', ''new''] None) \<and>
   \<not> replacesHistory (Navigate [''project'', ''new''] None) \<and>
   signIn (service0 (Some ''f=abc'')) = Inr (Navigate [''signin''] None) \<and>
   \<not> replacesHistory (Navigate [''signin''] None) \<and>
   signOut (service0 (Some ''f=abc'')) = Inr (Navigate [''/''] None) \<and>
   \<not> replacesHistory (Navigate [''/''] None)"
proof -
  let ?s = "service0 (Some ''f=abc'')"
  have f: "setFeatureId ?s (Some ''def'') =
      Inr (Navigate [''project/p1''] (Some \<lparr>extras_fragment = Some ''f=def'', replaceUrl = None\<rparr>))"
    by code_simp
  have ob: "setObservationId ?s None = Inr (Navigate [''project/p1'']
      (Some \<lparr>extras_fragment = Some ''f=abc'', replaceUrl = None\<rparr>))"
    by code_simp
  have l: "setLayerId ?s ''q'' = Inr (Navigate [''project/p1'']
      (Some \<lparr>extras_fragment = Some ''f=abc&l=q'', replaceUrl = None\<rparr>))"
    by code_simp
  have sp: "selectProject ?s ''q'' = Inr (NavigateByUrl ''project/q'')"
    by code_simp
  have np: "newProject ?s = Inr (Navigate [''project'', ''new''] None)"
    by code_simp
  have si: "signIn ?s = Inr (Navigate [''signin''] None)"
    by code_simp
  have so: "signOut ?s = Inr (Navigate [''/''] None)"
    by code_simp
  note all = navigation_never_replaces [of ?s "Some ''def''" "''q''"]
  note none = navigation_never_replaces [of ?s None "''q''"]
  from all f have 1: "\<not> replacesHistory
     (Navigate [''project/p1''] (Some \<lparr>extras_fragment = Some ''f=def'', replaceUrl = None\<rparr>))"
    by blast
  from none ob have 2: "\<not> replacesHistory
     (Navigate [''project/p1''] (Some \<lparr>extras_fragment = Some ''f=abc'', replaceUrl = None\<rparr>))"
    by blast
  from all l have 3: "\<not> replacesHistory
     (Navigate [''project/p1''] (Some \<lparr>extras_fragment = Some ''f=abc&l=q'', replaceUrl = None\<rparr>))"
    by blast
  from all sp have 4: "\<not> replacesHistory (NavigateByUrl ''project/q'')"
    by blast
  from all np have 5: "\<not> replacesHistory (Navigate [''project'', ''new''] None)"
    by blast
  from all si have 6: "\<not> replacesHistory (Navigate [''signin''] None)"
    by blast
  from all so have 7: "\<not> replacesHistory (Navigate [''/''] None)"
    by blast
  from f ob l sp np si so 1 2 3 4 5 6 7 show ?thesis
    by blast
qed

subsection \<open>The value lists of a fragment map are never empty\<close>

lemma values_update: "snd ` set (AList.update k v m) \<subseteq> insert v (snd ` set m)"
  by (induct m) auto

lemma values_delete: "snd ` set (AList.delete k m) \<subseteq> snd ` set m"
  by (induct m) auto

lemma parseParams_values:
  "parseParams m ps = Inr m' \<Longrightarrow> [] \<notin> snd ` set m \<Longrightarrow> [] \<notin> snd ` set m'"
proof (induction ps arbitrary: m)
  case Nil
  then show ?case by simp
next
  case (Cons param ps)
  from Cons.prems(1) obtain key val where
    kv: "parseParam param = Inr (key, val)" and
    rest: "parseParams
       (AList.update key ((case map_of m key of None \<Rightarrow> [] | Some list \<Rightarrow> list) @ [val]) m) ps = Inr m'"
    by (auto split: sum.splits)
  have "[] \<notin> snd ` set
      (AList.update key ((case map_of m key of None \<Rightarrow> [] | Some list \<Rightarrow> list) @ [val]) m)"
    using values_update [of key "(case map_of m key of None \<Rightarrow> [] | Some list \<Rightarrow> list) @ [val]" m]
      Cons.prems(2) by auto
  with Cons.IH rest show ?case by blast
qed

lemma fromString_values: "HttpParams_fromString s = Inr p \<Longrightarrow> [] \<notin> snd ` set p"
  using parseParams_values [of "[]" "split CHR ''&'' s" p]
  by (auto simp: HttpParams_fromString_def paramParser_def split: if_splits)

lemma getFragmentParams_values: "getFragmentParams this = Inr p \<Longrightarrow> [] \<notin> snd ` set p"
  by (auto simp: getFragmentParams_def split: option.splits dest: fromString_values)

lemma set_values:
  "[] \<notin> snd ` set p \<Longrightarrow> [] \<notin> snd ` set (HttpParams_set p key v)"
  using values_update [of key "[v]" p] by (auto simp: HttpParams_set_def)

lemma delete_values:
  "[] \<notin> snd ` set p \<Longrightarrow> [] \<notin> snd ` set (HttpParams_delete p key)"
  using values_delete [of key p] by (auto simp: HttpParams_delete_def)

lemma applyUpdates_values:
  "[] \<notin> snd ` set p \<Longrightarrow> [] \<notin> snd ` set (applyUpdates p updates)"
proof (induction p updates rule: applyUpdates.induct)
  case (1 params)
  then show ?case by simp
next
  case (2 params key val updates)
  let ?next = "case val of
          Some v \<Rightarrow> if v \<noteq> [] then HttpParams_set params key v else HttpParams_delete params key
        | None \<Rightarrow> HttpParams_delete params key"
  have "[] \<notin> snd ` set ?next"
    using "2.prems" by (simp add: set_values delete_values split: option.splits)
  then have "[] \<notin> snd ` set (applyUpdates ?next updates)"
    by (rule "2.IH")
  then show ?case by simp
qed

lemma join_eq_Nil: "sep \<noteq> [] \<Longrightarrow> join sep xs = [] \<longleftrightarrow> xs = [] \<or> xs = [[]]"
  by (induction sep xs rule: join.induct) auto

lemma toString_entryString:
  "HttpParams_toString params = join ''&'' (filter (\<lambda>param. param \<noteq> []) (map entryString params))"
  by (simp add: HttpParams_toString_def entryString_def)

lemma entryString_nonempty: "snd e \<noteq> [] \<Longrightarrow> entryString e \<noteq> []"
  by (cases e; cases "snd e") (auto simp: entryString_def join_eq_Nil)

lemma entryString_nonempty_in:
  assumes "[] \<notin> snd ` set params" and "e \<in> set params"
  shows "entryString e \<noteq> []"
proof (rule entryString_nonempty)
  from assms(2) have "snd e \<in> snd ` set params" by (rule imageI)
  with assms(1) show "snd e \<noteq> []" by metis
qed

lemma filter_entryString:
  assumes "[] \<notin> snd ` set params"
  shows "filter (\<lambda>param. param \<noteq> []) (map entryString params) = map entryString params"
  using entryString_nonempty_in [OF assms] by (induction params) simp_all

lemma toString_eq_Nil:
  assumes "[] \<notin> snd ` set params"
  shows "HttpParams_toString params = [] \<longleftrightarrow> params = []"
proof (cases params)
  case Nil
  then show ?thesis by (simp add: toString_entryString)
next
  case (Cons e es)
  have "entryString e \<noteq> []"
    using entryString_nonempty_in [OF assms, of e] Cons by simp
  then have "map entryString params \<noteq> [[]]" and "map entryString params \<noteq> []"
    using Cons by simp_all
  then have "join ''&'' (map entryString params) \<noteq> []"
    by (simp add: join_eq_Nil)
  then have "HttpParams_toString params \<noteq> []"
    by (simp only: toString_entryString filter_entryString [OF assms] not_False_eq_True)
  with Cons show ?thesis by simp
qed

subsection \<open>The navigation target of a fragment change\<close>

lemma setFragmentParam_target:
  assumes "getFragmentParams this = Inr params" and "primary (router this) = Some primaryUrl"
  shows "targetFor primaryUrl (applyUpdates params updates) (setFragmentParam this updates)"
proof -
  have "[] \<notin> snd ` set (applyUpdates params updates)"
    using assms(1) by (intro applyUpdates_values getFragmentParams_values)
  then show ?thesis
    using assms by (simp add: targetFor_def setFragmentParam_def setFragmentParams_def toString_eq_Nil)
qed

lemma setFeatureId_updates:
  assumes "getFragmentParams this = Inr params"
  shows "setFeatureId this i =
     setFragmentParam this
       ((FEATURE_ID_FRAGMENT_PARAM, i) #
        (if truthy (HttpParams_get params OBSERVATION_ID_FRAGMENT_PARAM)
         then [(OBSERVATION_ID_FRAGMENT_PARAM, None)] else []))"
  using assms by (simp add: setFeatureId_def getObservationId_def)

lemma service0_primary: "primary (router (service0 frag)) = Some ''project/p1''"
  by (simp add: service0_def init_def constructor_def router0_def)

text \<open>
  C4: let the current fragment decode to \<open>params\<close> and let the primary path be there. For
  each of \<^verbatim>\<open>setFeatureId\<close>, \<^verbatim>\<open>setObservationId\<close> and \<^verbatim>\<open>setLayerId\<close>, when the map that
  results from the requested and the cascade changes is empty, the navigation goes to the
  primary path and carries no fragment at all; when it is not empty, the navigation goes to
  the primary path with the encoded map as its fragment, and that string is not empty.
\<close>

theorem empty_fragment_suppressed:
  assumes "getFragmentParams this = Inr params" and "primary (router this) = Some primaryUrl"
  shows "targetFor primaryUrl
           (applyUpdates params
              ((FEATURE_ID_FRAGMENT_PARAM, i) #
               (if truthy (HttpParams_get params OBSERVATION_ID_FRAGMENT_PARAM)
                then [(OBSERVATION_ID_FRAGMENT_PARAM, None)] else [])))
           (setFeatureId this i) \<and>
         targetFor primaryUrl (applyUpdates params [(OBSERVATION_ID_FRAGMENT_PARAM, i)])
           (setObservationId this i) \<and>
         targetFor primaryUrl (applyUpdates params [(LAYER_ID_FRAGMENT_PARAM, Some j)])
           (setLayerId this j)"
proof -
  note target = setFragmentParam_target [OF assms]
  have "targetFor primaryUrl
           (applyUpdates params
              ((FEATURE_ID_FRAGMENT_PARAM, i) #
               (if truthy (HttpParams_get params OBSERVATION_ID_FRAGMENT_PARAM)
                then [(OBSERVATION_ID_FRAGMENT_PARAM, None)] else [])))
           (setFeatureId this i)"
    by (simp only: setFeatureId_updates [OF assms(1)] target)
  moreover have "targetFor primaryUrl (applyUpdates params [(OBSERVATION_ID_FRAGMENT_PARAM, i)])
           (setObservationId this i)"
    by (simp only: setObservationId_def target)
  moreover have "targetFor primaryUrl (applyUpdates params [(LAYER_ID_FRAGMENT_PARAM, Some j)])
           (setLayerId this j)"
    by (simp only: setLayerId_def target)
  ultimately show ?thesis by (intro conjI)
qed

theorem empty_fragment_suppressed_witness:
  "getFragmentParams (service0 (Some ''f=abc'')) = Inr [(''f'', [''abc''])] \<and>
   primary (router (service0 (Some ''f=abc''))) = Some ''project/p1'' \<and>
   setFeatureId (service0 (Some ''f=abc'')) None = Inr (Navigate [''project/p1''] None) \<and>
   setObservationId (service0 (Some ''f=abc'')) (Some ''xyz'') =
     Inr (Navigate [''project/p1'']
            (Some \<lparr>extras_fragment = Some ''f=abc&o=xyz'', replaceUrl = None\<rparr>)) \<and>
   setLayerId (service0 (Some ''f=abc'')) ''q'' =
     Inr (Navigate [''project/p1'']
            (Some \<lparr>extras_fragment = Some ''f=abc&l=q'', replaceUrl = None\<rparr>))"
proof -
  let ?s = "service0 (Some ''f=abc'')"
  let ?p = "[(''f'', [''abc''])]"
  have params: "getFragmentParams ?s = Inr ?p"
    by code_simp
  have url: "primary (router ?s) = Some ''project/p1''"
    by (rule service0_primary)
  have observation: "truthy (HttpParams_get ?p OBSERVATION_ID_FRAGMENT_PARAM) = False"
    by code_simp
  have next_f: "applyUpdates ?p [(FEATURE_ID_FRAGMENT_PARAM, None)] = []"
    by code_simp
  have next_o: "applyUpdates ?p [(OBSERVATION_ID_FRAGMENT_PARAM, Some ''xyz'')] =
      [(''f'', [''abc'']), (''o'', [''xyz''])]"
    by code_simp
  have next_l: "applyUpdates ?p [(LAYER_ID_FRAGMENT_PARAM, Some ''q'')] =
      [(''f'', [''abc'']), (''l'', [''q''])]"
    by code_simp
  have string_o: "HttpParams_toString [(''f'', [''abc'']), (''o'', [''xyz''])] = ''f=abc&o=xyz''"
    by code_simp
  have string_l: "HttpParams_toString [(''f'', [''abc'']), (''l'', [''q''])] = ''f=abc&l=q''"
    by code_simp
  from empty_fragment_suppressed [OF params url, of None "''q''"]
    empty_fragment_suppressed [OF params url, of "Some ''xyz''" "''q''"]
  have "targetFor ''project/p1'' [] (setFeatureId ?s None)"
  and "targetFor ''project/p1'' [(''f'', [''abc'']), (''o'', [''xyz''])]
         (setObservationId ?s (Some ''xyz''))"
  and "targetFor ''project/p1'' [(''f'', [''abc'']), (''l'', [''q''])] (setLayerId ?s ''q'')"
    unfolding observation if_False next_f next_o next_l by blast+
  then show ?thesis
    using params url unfolding targetFor_def string_o string_l by simp
qed

subsection \<open>The cascade from feature to observation\<close>

lemma map_of_HttpParams_set:
  "map_of (HttpParams_set params key v) = (map_of params)(key \<mapsto> [v])"
  by (simp add: HttpParams_set_def update_conv')

lemma map_of_HttpParams_delete:
  "map_of (HttpParams_delete params key) = (map_of params)(key := None)"
  by (simp add: HttpParams_delete_def delete_conv')

lemma map_of_applyUpdates:
  "k \<notin> fst ` set updates \<Longrightarrow> map_of (applyUpdates params updates) k = map_of params k"
  by (induction params updates rule: applyUpdates.induct)
     (auto simp: map_of_HttpParams_set map_of_HttpParams_delete split: option.splits)

lemma map_of_applyUpdates_one:
  "k \<noteq> key \<Longrightarrow> map_of (applyUpdates params [(key, val)]) k = map_of params k"
  by (rule map_of_applyUpdates) simp

lemma map_of_applyUpdates_feature:
  "k \<noteq> FEATURE_ID_FRAGMENT_PARAM \<and> k \<noteq> OBSERVATION_ID_FRAGMENT_PARAM \<Longrightarrow>
   map_of (applyUpdates params ((FEATURE_ID_FRAGMENT_PARAM, i) #
        (if c then [(OBSERVATION_ID_FRAGMENT_PARAM, None)] else []))) k = map_of params k"
  by (rule map_of_applyUpdates) auto

lemma delete_applyUpdates_one:
  "AList.delete key (applyUpdates params [(key, val)]) = AList.delete key params"
  by (auto simp: HttpParams_set_def HttpParams_delete_def delete_update_same delete_idem
      split: option.splits)

text \<open>
  C3, as stated, fails: the cascade tests the observation id for truthiness. In the fragment
  \<^verbatim>\<open>f=abc&o=\<close> the observation key is present with an empty value; \<^verbatim>\<open>setFeatureId("def")\<close>
  then leaves it alone and navigates to \<^verbatim>\<open>f=def&o=\<close>, where the key is still present.
\<close>

theorem cascade_empty_observation_counterexample:
  "getFragmentParams (service0 (Some ''f=abc&o='')) = Inr [(''f'', [''abc'']), (''o'', [[]])] \<and>
   map_of [(''f'', [''abc'']), (''o'', [[]])] OBSERVATION_ID_FRAGMENT_PARAM \<noteq> None \<and>
   setFeatureId (service0 (Some ''f=abc&o='')) (Some ''def'') =
     Inr (Navigate [''project/p1'']
            (Some \<lparr>extras_fragment = Some ''f=def&o='', replaceUrl = None\<rparr>)) \<and>
   HttpParams_fromString ''f=def&o='' = Inr [(''f'', [''def'']), (''o'', [[]])] \<and>
   map_of [(''f'', [''def'']), (''o'', [[]])] OBSERVATION_ID_FRAGMENT_PARAM \<noteq> None"
  by code_simp

text \<open>
  C3, amended: whenever the first value of the observation key in the current fragment map is
  a non-empty string, \<^verbatim>\<open>setFeatureId\<close>, with an id or with \<^verbatim>\<open>null\<close>, navigates to the map
  that results from updating the feature key and deleting the observation key, and the
  observation key is absent from that map. From \<^verbatim>\<open>f=abc&o=xyz\<close>, \<^verbatim>\<open>setFeatureId("def")\<close> gives
  the fragment \<^verbatim>\<open>f=def\<close> and \<^verbatim>\<open>setFeatureId(null)\<close> gives no fragment.
\<close>

theorem feature_change_clears_observation:
  assumes "getFragmentParams this = Inr params" and "primary (router this) = Some primaryUrl"
    and "truthy (HttpParams_get params OBSERVATION_ID_FRAGMENT_PARAM)"
  shows "map_of (applyUpdates params
             [(FEATURE_ID_FRAGMENT_PARAM, i), (OBSERVATION_ID_FRAGMENT_PARAM, None)])
           OBSERVATION_ID_FRAGMENT_PARAM = None \<and>
         targetFor primaryUrl
           (applyUpdates params
              [(FEATURE_ID_FRAGMENT_PARAM, i), (OBSERVATION_ID_FRAGMENT_PARAM, None)])
           (setFeatureId this i)"
proof -
  have "setFeatureId this i =
      setFragmentParam this
        [(FEATURE_ID_FRAGMENT_PARAM, i), (OBSERVATION_ID_FRAGMENT_PARAM, None)]"
    using assms(3) by (simp add: setFeatureId_updates [OF assms(1)])
  then have "targetFor primaryUrl
           (applyUpdates params
              [(FEATURE_ID_FRAGMENT_PARAM, i), (OBSERVATION_ID_FRAGMENT_PARAM, None)])
           (setFeatureId this i)"
    by (simp only: setFragmentParam_target [OF assms(1,2)])
  moreover have "map_of (applyUpdates params
             [(FEATURE_ID_FRAGMENT_PARAM, i), (OBSERVATION_ID_FRAGMENT_PARAM, None)])
           OBSERVATION_ID_FRAGMENT_PARAM = None"
    by (simp add: map_of_HttpParams_delete split: option.splits)
  ultimately show ?thesis by simp
qed

theorem feature_change_clears_observation_witness:
  "getFragmentParams (service0 (Some ''f=abc&o=xyz'')) =
     Inr [(''f'', [''abc'']), (''o'', [''xyz''])] \<and>
   primary (router (service0 (Some ''f=abc&o=xyz''))) = Some ''project/p1'' \<and>
   truthy (HttpParams_get [(''f'', [''abc'']), (''o'', [''xyz''])] OBSERVATION_ID_FRAGMENT_PARAM) \<and>
   setFeatureId (service0 (Some ''f=abc&o=xyz'')) (Some ''def'') =
     Inr (Navigate [''project/p1'']
            (Some \<lparr>extras_fragment = Some ''f=def'', replaceUrl = None\<rparr>)) \<and>
   setFeatureId (service0 (Some ''f=abc&o=xyz'')) None = Inr (Navigate [''project/p1''] None)"
proof -
  let ?s = "service0 (Some ''f=abc&o=xyz'')"
  let ?p = "[(''f'', [''abc'']), (''o'', [''xyz''])]"
  have params: "getFragmentParams ?s = Inr ?p"
    by code_simp
  have url: "primary (router ?s) = Some ''project/p1''"
    by (rule service0_primary)
  have observation: "truthy (HttpParams_get ?p OBSERVATION_ID_FRAGMENT_PARAM)"
    by code_simp
  have next_def: "applyUpdates ?p
      [(FEATURE_ID_FRAGMENT_PARAM, Some ''def''), (OBSERVATION_ID_FRAGMENT_PARAM, None)] =
      [(''f'', [''def''])]"
    by code_simp
  have next_null: "applyUpdates ?p
      [(FEATURE_ID_FRAGMENT_PARAM, None), (OBSERVATION_ID_FRAGMENT_PARAM, None)] = []"
    by code_simp
  have string_def: "HttpParams_toString [(''f'', [''def''])] = ''f=def''"
    by code_simp
  from feature_change_clears_observation [OF params url observation, of "Some ''def''"]
    feature_change_clears_observation [OF params url observation, of None]
  have "targetFor ''project/p1'' [(''f'', [''def''])] (setFeatureId ?s (Some ''def''))"
  and "targetFor ''project/p1'' [] (setFeatureId ?s None)"
    unfolding next_def next_null by blast+
  then show ?thesis
    using params url observation unfolding targetFor_def string_def by simp
qed

subsection \<open>Keys that an operation does not update\<close>

text \<open>
  C5: each fragment-mutating operation keeps every key it does not update, with all its
  values: \<^verbatim>\<open>setLayerId\<close> changes the layer key only, \<^verbatim>\<open>setObservationId\<close> the observation key
  only (for both, the other entries also keep their order), and \<^verbatim>\<open>setFeatureId\<close> the feature
  and the observation key only. This holds for maps with keys other than \<^verbatim>\<open>l\<close>, \<^verbatim>\<open>f\<close> and
  \<^verbatim>\<open>o\<close> as well.
\<close>

theorem other_keys_preserved:
  assumes "getFragmentParams this = Inr params" and "primary (router this) = Some primaryUrl"
  shows "(let next = applyUpdates params [(LAYER_ID_FRAGMENT_PARAM, Some j)] in
            targetFor primaryUrl next (setLayerId this j) \<and>
            (\<forall>k. k \<noteq> LAYER_ID_FRAGMENT_PARAM \<longrightarrow> map_of next k = map_of params k) \<and>
            AList.delete LAYER_ID_FRAGMENT_PARAM next =
              AList.delete LAYER_ID_FRAGMENT_PARAM params) \<and>
         (let next = applyUpdates params [(OBSERVATION_ID_FRAGMENT_PARAM, i)] in
            targetFor primaryUrl next (setObservationId this i) \<and>
            (\<forall>k. k \<noteq> OBSERVATION_ID_FRAGMENT_PARAM \<longrightarrow> map_of next k = map_of params k) \<and>
            AList.delete OBSERVATION_ID_FRAGMENT_PARAM next =
              AList.delete OBSERVATION_ID_FRAGMENT_PARAM params) \<and>
         (let next = applyUpdates params
              ((FEATURE_ID_FRAGMENT_PARAM, i) #
               (if truthy (HttpParams_get params OBSERVATION_ID_FRAGMENT_PARAM)
                then [(OBSERVATION_ID_FRAGMENT_PARAM, None)] else [])) in
            targetFor primaryUrl next (setFeatureId this i) \<and>
            (\<forall>k. k \<noteq> FEATURE_ID_FRAGMENT_PARAM \<and> k \<noteq> OBSERVATION_ID_FRAGMENT_PARAM \<longrightarrow>
                 map_of next k = map_of params k))"
  unfolding Let_def setFeatureId_updates [OF assms(1)] setObservationId_def setLayerId_def
proof (intro conjI allI impI)
  fix k
  assume "k \<noteq> LAYER_ID_FRAGMENT_PARAM"
  then show "map_of (applyUpdates params [(LAYER_ID_FRAGMENT_PARAM, Some j)]) k = map_of params k"
    by (rule map_of_applyUpdates_one)
next
  fix k
  assume "k \<noteq> OBSERVATION_ID_FRAGMENT_PARAM"
  then show "map_of (applyUpdates params [(OBSERVATION_ID_FRAGMENT_PARAM, i)]) k = map_of params k"
    by (rule map_of_applyUpdates_one)
next
  fix k
  assume "k \<noteq> FEATURE_ID_FRAGMENT_PARAM \<and> k \<noteq> OBSERVATION_ID_FRAGMENT_PARAM"
  then show "map_of (applyUpdates params
              ((FEATURE_ID_FRAGMENT_PARAM, i) #
               (if truthy (HttpParams_get params OBSERVATION_ID_FRAGMENT_PARAM)
                then [(OBSERVATION_ID_FRAGMENT_PARAM, None)] else []))) k = map_of params k"
    by (rule map_of_applyUpdates_feature)
qed (rule setFragmentParam_target [OF assms] delete_applyUpdates_one)+

theorem other_keys_preserved_witness:
  "getFragmentParams (service0 (Some ''zoom=3&f=abc&o=xyz'')) =
     Inr [(''zoom'', [''3'']), (''f'', [''abc'']), (''o'', [''xyz''])] \<and>
   primary (router (service0 (Some ''zoom=3&f=abc&o=xyz''))) = Some ''project/p1'' \<and>
   setLayerId (service0 (Some ''zoom=3&f=abc&o=xyz'')) ''q'' =
     Inr (Navigate [''project/p1'']
            (Some \<lparr>extras_fragment = Some ''zoom=3&f=abc&o=xyz&l=q'', replaceUrl = None\<rparr>)) \<and>
   AList.delete LAYER_ID_FRAGMENT_PARAM
     [(''zoom'', [''3'']), (''f'', [''abc'']), (''o'', [''xyz'']), (''l'', [''q''])] =
     [(''zoom'', [''3'']), (''f'', [''abc'']), (''o'', [''xyz''])] \<and>
   setObservationId (service0 (Some ''zoom=3&f=abc&o=xyz'')) None =
     Inr (Navigate [''project/p1'']
            (Some \<lparr>extras_fragment = Some ''zoom=3&f=abc'', replaceUrl = None\<rparr>)) \<and>
   setFeatureId (service0 (Some ''zoom=3&f=abc&o=xyz'')) (Some ''def'') =
     Inr (Navigate [''project/p1'']
            (Some \<lparr>extras_fragment = Some ''zoom=3&f=def'', replaceUrl = None\<rparr>))"
proof -
  let ?s = "service0 (Some ''zoom=3&f=abc&o=xyz'')"
  let ?p = "[(''zoom'', [''3'']), (''f'', [''abc'']), (''o'', [''xyz''])]"
  have params: "getFragmentParams ?s = Inr ?p"
    by code_simp
  have url: "primary (router ?s) = Some ''project/p1''"
    by (rule service0_primary)
  have observation: "truthy (HttpParams_get ?p OBSERVATION_ID_FRAGMENT_PARAM) = True"
    by code_simp
  have next_l: "applyUpdates ?p [(LAYER_ID_FRAGMENT_PARAM, Some ''q'')] =
      [(''zoom'', [''3'']), (''f'', [''abc'']), (''o'', [''xyz'']), (''l'', [''q''])]"
    by code_simp
  have next_o: "applyUpdates ?p [(OBSERVATION_ID_FRAGMENT_PARAM, None)] =
      [(''zoom'', [''3'']), (''f'', [''abc''])]"
    by code_simp
  have next_f: "applyUpdates ?p
      [(FEATURE_ID_FRAGMENT_PARAM, Some ''def''), (OBSERVATION_ID_FRAGMENT_PARAM, None)] =
      [(''zoom'', [''3'']), (''f'', [''def''])]"
    by code_simp
  have string_l: "HttpParams_toString
      [(''zoom'', [''3'']), (''f'', [''abc'']), (''o'', [''xyz'']), (''l'', [''q''])] =
      ''zoom=3&f=abc&o=xyz&l=q''"
    by code_simp
  have string_o: "HttpParams_toString [(''zoom'', [''3'']), (''f'', [''abc''])] = ''zoom=3&f=abc''"
    by code_simp
  have string_f: "HttpParams_toString [(''zoom'', [''3'']), (''f'', [''def''])] = ''zoom=3&f=def''"
    by code_simp
  from other_keys_preserved [OF params url, of "''q''" None]
    other_keys_preserved [OF params url, of "''q''" "Some ''def''"]
  have "targetFor ''project/p1''
      [(''zoom'', [''3'']), (''f'', [''abc'']), (''o'', [''xyz'']), (''l'', [''q''])]
      (setLayerId ?s ''q'')"
  and "AList.delete LAYER_ID_FRAGMENT_PARAM
      [(''zoom'', [''3'']), (''f'', [''abc'']), (''o'', [''xyz'']), (''l'', [''q''])] =
      AList.delete LAYER_ID_FRAGMENT_PARAM ?p"
  and "targetFor ''project/p1'' [(''zoom'', [''3'']), (''f'', [''abc''])]
      (setObservationId ?s None)"
  and "targetFor ''project/p1'' [(''zoom'', [''3'']), (''f'', [''def''])]
      (setFeatureId ?s (Some ''def''))"
    unfolding Let_def observation if_True next_l next_o next_f by blast+
  moreover have "AList.delete LAYER_ID_FRAGMENT_PARAM ?p = ?p"
    by code_simp
  ultimately show ?thesis
    using params url unfolding targetFor_def string_l string_o string_f by simp
qed

text \<open>The example of the spec, and its end-to-end scenario.\<close>

lemma setLayerId_example:
  "setLayerId (service0 (Some ''f=abc&o=xyz'')) ''q'' =
     Inr (Navigate [''project/p1'']
            (Some \<lparr>extras_fragment = Some ''f=abc&o=xyz&l=q'', replaceUrl = None\<rparr>))"
  "HttpParams_fromString ''f=abc&o=xyz&l=q'' =
     Inr [(''f'', [''abc'']), (''o'', [''xyz'']), (''l'', [''q''])]"
  by code_simp+

lemma end_to_end_scenario:
  "setFeatureId (service0 (Some ''l=L1'')) (Some ''F2'') =
     Inr (Navigate [''project/p1'']
            (Some \<lparr>extras_fragment = Some ''l=L1&f=F2'', replaceUrl = None\<rparr>))"
  "setObservationId (service0 (Some ''l=L1&f=F2'')) (Some ''O3'') =
     Inr (Navigate [''project/p1'']
            (Some \<lparr>extras_fragment = Some ''l=L1&f=F2&o=O3'', replaceUrl = None\<rparr>))"
  "setFeatureId (service0 (Some ''l=L1&f=F2&o=O3'')) (Some ''F9'') =
     Inr (Navigate [''project/p1'']
            (Some \<lparr>extras_fragment = Some ''l=L1&f=F9'', replaceUrl = None\<rparr>))"
  by code_simp+

subsection \<open>editObservation\<close>

lemma length_join:
  "length (join ''&'' xs) = sum_list (map (\<lambda>x. Suc (length x)) xs) - 1"
  by (induction "''&''" xs rule: join.induct) simp_all

lemma toString_length:
  assumes "[] \<notin> snd ` set params"
  shows "length (HttpParams_toString params) =
         sum_list (map (\<lambda>e. Suc (length (entryString e))) params) - 1"
  by (simp only: toString_entryString filter_entryString [OF assms] length_join map_map comp_def)

lemma sum_list_delete_le:
  fixes f :: "'a \<times> 'b \<Rightarrow> nat"
  shows "sum_list (map f (AList.delete k p)) \<le> sum_list (map f p)"
  by (induction p) auto

lemma sum_list_update_ge:
  fixes f :: "'a \<times> 'b \<Rightarrow> nat"
  shows "f (k, v) + sum_list (map f (AList.delete k p)) \<le> sum_list (map f (AList.update k v p))"
proof (induction p)
  case Nil
  then show ?case by simp
next
  case (Cons a p)
  show ?case
  proof (cases "fst a = k")
    case True
    then show ?thesis
      using sum_list_delete_le [of f k p] by (cases a) simp
  next
    case False
    then show ?thesis
      using Cons.IH by (cases a) simp
  qed
qed

lemma toString_set_neq_delete:
  assumes "[] \<notin> snd ` set params"
  shows "HttpParams_toString (HttpParams_set params key v) \<noteq>
         HttpParams_toString (HttpParams_delete params key)"
proof -
  let ?w = "\<lambda>e. Suc (length (entryString e))"
  have "?w (key, [v]) + sum_list (map ?w (AList.delete key params))
      \<le> sum_list (map ?w (AList.update key [v] params))"
    by (rule sum_list_update_ge)
  moreover have "0 < length (entryString (key, [v]))"
    using entryString_nonempty [of "(key, [v])"] by simp
  ultimately have "sum_list (map ?w (HttpParams_delete params key)) - 1
      < sum_list (map ?w (HttpParams_set params key v)) - 1"
    unfolding HttpParams_set_def HttpParams_delete_def by linarith
  then have "length (HttpParams_toString (HttpParams_delete params key))
      < length (HttpParams_toString (HttpParams_set params key v))"
    by (simp only: toString_length [OF set_values [OF assms]]
        toString_length [OF delete_values [OF assms]])
  then show ?thesis by auto
qed

lemma stringEntries_observation:
  "stringEntries OBSERVATION_ID_FRAGMENT_PARAM = [(OBSERVATION_ID_FRAGMENT_PARAM, None)]"
  by (simp add: stringEntries_def OBSERVATION_ID_FRAGMENT_PARAM_def)

lemma targetFor_neq:
  assumes "targetFor primaryUrl a r" and "targetFor primaryUrl b r'"
    and "a \<noteq> []" and "HttpParams_toString a \<noteq> HttpParams_toString b"
  shows "r \<noteq> r'"
  using assms by (cases "b = []") (auto simp: targetFor_def)

text \<open>
  C10, as stated, fails in its last part: for the empty string, which is an id other than
  \<^verbatim>\<open>null\<close>, \<^verbatim>\<open>editObservation\<close> and \<^verbatim>\<open>setObservationId\<close> do the same, since
  \<^verbatim>\<open>setObservationId\<close> deletes the key for every falsy id.
\<close>

theorem editObservation_empty_id_counterexample:
  "editObservation (service0 (Some ''f=abc&o=xyz'')) (Some []) =
     Inr (Navigate [''project/p1''] (Some \<lparr>extras_fragment = Some ''f=abc'', replaceUrl = None\<rparr>)) \<and>
   setObservationId (service0 (Some ''f=abc&o=xyz'')) (Some []) =
     Inr (Navigate [''project/p1''] (Some \<lparr>extras_fragment = Some ''f=abc'', replaceUrl = None\<rparr>))"
  by code_simp

text \<open>
  C10, amended: for every id, \<^verbatim>\<open>editObservation(id)\<close> does what \<^verbatim>\<open>setObservationId(null)\<close>
  does, failures included. When the call succeeds it navigates to the current map without
  the observation key, so it never sets that key to the id; and for every non-empty id the
  navigation differs from the one of \<^verbatim>\<open>setObservationId(id)\<close>, which sets the key.
\<close>

theorem editObservation_clears:
  "editObservation this i = setObservationId this None \<and>
   (getFragmentParams this = Inr params \<and> primary (router this) = Some primaryUrl \<longrightarrow>
      map_of (HttpParams_delete params OBSERVATION_ID_FRAGMENT_PARAM)
        OBSERVATION_ID_FRAGMENT_PARAM = None \<and>
      targetFor primaryUrl (HttpParams_delete params OBSERVATION_ID_FRAGMENT_PARAM)
        (editObservation this i) \<and>
      (\<forall>v. v \<noteq> [] \<longrightarrow>
         HttpParams_get (HttpParams_set params OBSERVATION_ID_FRAGMENT_PARAM v)
           OBSERVATION_ID_FRAGMENT_PARAM = Some v \<and>
         targetFor primaryUrl (HttpParams_set params OBSERVATION_ID_FRAGMENT_PARAM v)
           (setObservationId this (Some v)) \<and>
         setObservationId this (Some v) \<noteq> editObservation this i))"
proof (intro conjI impI allI; (elim conjE)?)
  show same: "editObservation this i = setObservationId this None"
    by (simp only: editObservation_def setObservationId_def stringEntries_observation)
  assume params: "getFragmentParams this = Inr params"
    and url: "primary (router this) = Some primaryUrl"
  show "map_of (HttpParams_delete params OBSERVATION_ID_FRAGMENT_PARAM)
        OBSERVATION_ID_FRAGMENT_PARAM = None"
    by (simp add: map_of_HttpParams_delete)
  have "targetFor primaryUrl
      (applyUpdates params [(OBSERVATION_ID_FRAGMENT_PARAM, None)]) (setObservationId this None)"
    unfolding setObservationId_def by (rule setFragmentParam_target [OF params url])
  then show del: "targetFor primaryUrl (HttpParams_delete params OBSERVATION_ID_FRAGMENT_PARAM)
        (editObservation this i)"
    by (simp add: same)
  fix v :: string
  assume v: "v \<noteq> []"
  show "HttpParams_get (HttpParams_set params OBSERVATION_ID_FRAGMENT_PARAM v)
           OBSERVATION_ID_FRAGMENT_PARAM = Some v"
    by (simp add: HttpParams_get_def map_of_HttpParams_set)
  have "targetFor primaryUrl
      (applyUpdates params [(OBSERVATION_ID_FRAGMENT_PARAM, Some v)])
      (setObservationId this (Some v))"
    unfolding setObservationId_def by (rule setFragmentParam_target [OF params url])
  with v show set: "targetFor primaryUrl (HttpParams_set params OBSERVATION_ID_FRAGMENT_PARAM v)
           (setObservationId this (Some v))"
    by simp
  have updated: "HttpParams_set params OBSERVATION_ID_FRAGMENT_PARAM v \<noteq> []"
    by (simp add: HttpParams_set_def)
  show "setObservationId this (Some v) \<noteq> editObservation this i"
    by (rule targetFor_neq [OF set del updated
          toString_set_neq_delete [OF getFragmentParams_values [OF params]]])
qed

theorem editObservation_clears_witness:
  "getFragmentParams (service0 (Some ''f=abc&o=xyz'')) =
     Inr [(''f'', [''abc'']), (''o'', [''xyz''])] \<and>
   primary (router (service0 (Some ''f=abc&o=xyz''))) = Some ''project/p1'' \<and>
   editObservation (service0 (Some ''f=abc&o=xyz'')) (Some ''new'') =
     Inr (Navigate [''project/p1''] (Some \<lparr>extras_fragment = Some ''f=abc'', replaceUrl = None\<rparr>)) \<and>
   setObservationId (service0 (Some ''f=abc&o=xyz'')) (Some ''new'') =
     Inr (Navigate [''project/p1'']
            (Some \<lparr>extras_fragment = Some ''f=abc&o=new'', replaceUrl = None\<rparr>)) \<and>
   setObservationId (service0 (Some ''f=abc&o=xyz'')) (Some ''new'') \<noteq>
     editObservation (service0 (Some ''f=abc&o=xyz'')) (Some ''new'')"
proof -
  let ?s = "service0 (Some ''f=abc&o=xyz'')"
  let ?p = "[(''f'', [''abc'']), (''o'', [''xyz''])]"
  have params: "getFragmentParams ?s = Inr ?p"
    by code_simp
  have url: "primary (router ?s) = Some ''project/p1''"
    by (rule service0_primary)
  have deleted: "HttpParams_delete ?p OBSERVATION_ID_FRAGMENT_PARAM = [(''f'', [''abc''])]"
    by code_simp
  have updated: "HttpParams_set ?p OBSERVATION_ID_FRAGMENT_PARAM ''new'' =
      [(''f'', [''abc'']), (''o'', [''new''])]"
    by code_simp
  have string_d: "HttpParams_toString [(''f'', [''abc''])] = ''f=abc''"
    by code_simp
  have string_u: "HttpParams_toString [(''f'', [''abc'']), (''o'', [''new''])] = ''f=abc&o=new''"
    by code_simp
  have new: "''new'' \<noteq> []"
    by simp
  note inner = editObservation_clears [of ?s "Some ''new''" ?p "''project/p1''",
      THEN conjunct2, THEN mp, OF conjI [OF params url]]
  note upd = inner [THEN conjunct2, THEN conjunct2, THEN spec, THEN mp, OF new]
  have "targetFor ''project/p1'' [(''f'', [''abc''])] (editObservation ?s (Some ''new''))"
    using inner [THEN conjunct2, THEN conjunct1] unfolding deleted .
  moreover have "targetFor ''project/p1'' [(''f'', [''abc'']), (''o'', [''new''])]
      (setObservationId ?s (Some ''new''))"
    using upd [THEN conjunct2, THEN conjunct1] unfolding updated .
  moreover have "setObservationId ?s (Some ''new'') \<noteq> editObservation ?s (Some ''new'')"
    using upd [THEN conjunct2, THEN conjunct2] .
  ultimately show ?thesis
    using params url unfolding targetFor_def string_d string_u by simp
qed

subsection \<open>The round trip of the fragment codec\<close>

lemma unreserved_unescaped: "set unreserved \<subseteq> set uriUnescaped"
  by code_simp

lemma unreserved_plain:
  "CHR ''%'' \<notin> set unreserved" "CHR ''='' \<notin> set unreserved" "CHR ''&'' \<notin> set unreserved"
  by code_simp+

lemma urlSafe_plain:
  assumes "urlSafe s"
  shows "CHR ''%'' \<notin> set s" and "CHR ''='' \<notin> set s" and "CHR ''&'' \<notin> set s"
  using assms unreserved_plain unfolding urlSafe_def by blast+

lemma encodeURIComponent_unescaped:
  "set s \<subseteq> set uriUnescaped \<Longrightarrow> encodeURIComponent s = s"
  unfolding encodeURIComponent_def by (induction s) simp_all

lemma replaceEscape_plain:
  "CHR ''%'' \<notin> set s \<Longrightarrow> replaceEscape X Y r s = s"
  by (induction X Y r s rule: replaceEscape.induct) auto

lemma standardEncoding_urlSafe:
  assumes "urlSafe s"
  shows "standardEncoding s = s"
proof -
  have "set s \<subseteq> set uriUnescaped"
    using assms unreserved_unescaped unfolding urlSafe_def by blast
  then have "encodeURIComponent s = s"
    by (rule encodeURIComponent_unescaped)
  then show ?thesis
    unfolding standardEncoding_def
    by (simp only: replaceEscape_plain [OF urlSafe_plain(1) [OF assms]])
qed

lemma decodeLoop_plain:
  "CHR ''%'' \<notin> set s \<Longrightarrow> decodeLoop 0 octets s = Inr s"
  by (induction s arbitrary: octets) (auto simp: emit_def)

lemma decodeURIComponent_plain:
  "CHR ''%'' \<notin> set s \<Longrightarrow> decodeURIComponent s = Inr s"
  unfolding decodeURIComponent_def by (rule decodeLoop_plain)

lemma parseParam_pair:
  assumes "CHR ''='' \<notin> set key" and "CHR ''%'' \<notin> set key" and "CHR ''%'' \<notin> set val"
  shows "parseParam (key @ ''='' @ val) = Inr (key, val)"
proof -
  have "takeWhile (\<lambda>c. c \<noteq> CHR ''='') (key @ ''='' @ val) = key"
    using assms(1) by (induction key) auto
  moreover have "dropWhile (\<lambda>c. c \<noteq> CHR ''='') (key @ ''='' @ val) = ''='' @ val"
    using assms(1) by (induction key) auto
  ultimately show ?thesis
    using assms(2,3) by (simp add: parseParam_def decodeURIComponent_plain)
qed

lemma split_plain: "sep \<notin> set p \<Longrightarrow> split sep p = [p]"
  by (induction p) auto

lemma split_append:
  "sep \<notin> set p \<Longrightarrow> split sep (p @ sep # rest) = p # split sep rest"
  by (induction p) auto

lemma split_join:
  assumes "ps \<noteq> []" and "\<forall>p \<in> set ps. CHR ''&'' \<notin> set p"
  shows "split CHR ''&'' (join ''&'' ps) = ps"
  using assms
proof (induction "''&''" ps rule: join.induct)
  case 1
  then show ?case by simp
next
  case (2 x)
  then show ?case by (simp add: split_plain)
next
  case (3 x y ys)
  then show ?case by (simp add: split_append)
qed

lemma join_append:
  "xs \<noteq> [] \<Longrightarrow> ys \<noteq> [] \<Longrightarrow> join sep (xs @ ys) = join sep xs @ sep @ join sep ys"
proof (induction sep xs rule: join.induct)
  case (1 sep)
  then show ?case by simp
next
  case (2 sep x)
  then show ?case by (cases ys) simp_all
next
  case (3 sep x y ys)
  then show ?case by simp
qed

lemma join_concat:
  assumes "\<forall>xs \<in> set xss. xs \<noteq> []"
  shows "join sep (map (join sep) xss) = join sep (concat xss)"
  using assms
proof (induction xss)
  case Nil
  then show ?case by simp
next
  case (Cons xs xss)
  show ?case
  proof (cases "xss = []")
    case True
    then show ?thesis by simp
  next
    case False
    then obtain ys yss where yss: "xss = ys # yss"
      by (cases xss) auto
    have "concat xss \<noteq> []"
      using Cons.prems yss by simp
    moreover have "xs \<noteq> []"
      using Cons.prems by simp
    ultimately have "join sep (concat (xs # xss)) = join sep xs @ sep @ join sep (concat xss)"
      by (simp add: join_append)
    moreover have "join sep (map (join sep) (xs # xss)) =
        join sep xs @ sep @ join sep (map (join sep) xss)"
      using yss by simp
    ultimately show ?thesis
      using Cons by simp
  qed
qed

lemma entryString_safe:
  assumes "urlSafe key" and "\<forall>v \<in> set vals. urlSafe v"
  shows "entryString (key, vals) = join ''&'' (map (\<lambda>v. key @ ''='' @ v) vals)"
proof -
  have eq: "map (\<lambda>v. standardEncoding key @ ''='' @ standardEncoding v) vals =
      map (\<lambda>v. key @ ''='' @ v) vals"
    using assms by (simp add: standardEncoding_urlSafe)
  show ?thesis
    by (simp only: entryString_def prod.case eq)
qed

lemma toString_pieces:
  assumes "safeParams params"
  shows "HttpParams_toString params = join ''&'' (pieces params)"
proof -
  let ?xss = "map (\<lambda>(key, vals). map (\<lambda>v. key @ ''='' @ v) vals) params"
  have nonempty: "[] \<notin> snd ` set params"
    using assms unfolding safeParams_def by force
  have entries: "map entryString params = map (join ''&'') ?xss"
    using assms unfolding safeParams_def by (auto simp: entryString_safe)
  have lists: "\<forall>xs \<in> set ?xss. xs \<noteq> []"
    using assms unfolding safeParams_def by auto
  have "HttpParams_toString params = join ''&'' (map entryString params)"
    by (simp only: toString_entryString filter_entryString [OF nonempty])
  also have "\<dots> = join ''&'' (map (join ''&'') ?xss)"
    by (simp only: entries)
  also have "\<dots> = join ''&'' (concat ?xss)"
    using lists by (rule join_concat)
  finally show ?thesis
    unfolding pieces_def .
qed

lemma update_fresh:
  "key \<notin> fst ` set acc \<Longrightarrow> AList.update key x acc = acc @ [(key, x)]"
  by (induction acc) auto

lemma update_last_entry:
  "key \<notin> fst ` set acc \<Longrightarrow> AList.update key x (acc @ [(key, y)]) = acc @ [(key, x)]"
  by (induction acc) auto

lemma map_of_fresh: "key \<notin> fst ` set acc \<Longrightarrow> map_of acc key = None"
  by (simp add: map_of_eq_None_iff)

lemma map_of_last_entry:
  "key \<notin> fst ` set acc \<Longrightarrow> map_of (acc @ [(key, y)]) key = Some y"
  by (induction acc) auto

lemma parseParams_more_values:
  assumes "key \<notin> fst ` set acc" and "urlSafe key" and "\<forall>v \<in> set vals. urlSafe v"
  shows "parseParams (acc @ [(key, ws)]) (map (\<lambda>v. key @ ''='' @ v) vals @ rest) =
         parseParams (acc @ [(key, ws @ vals)]) rest"
  using assms(3)
proof (induction vals arbitrary: ws)
  case Nil
  then show ?case by simp
next
  case (Cons v vals)
  have "parseParam (key @ ''='' @ v) = Inr (key, v)"
    using assms(2) Cons.prems by (intro parseParam_pair urlSafe_plain) simp_all
  then have "parseParams (acc @ [(key, ws)]) (map (\<lambda>v. key @ ''='' @ v) (v # vals) @ rest) =
      parseParams (acc @ [(key, ws @ [v])]) (map (\<lambda>v. key @ ''='' @ v) vals @ rest)"
    using assms(1) by (simp add: map_of_last_entry update_last_entry del: map_of_append)
  also have "\<dots> = parseParams (acc @ [(key, (ws @ [v]) @ vals)]) rest"
    using Cons.prems by (intro Cons.IH) simp
  finally show ?case by simp
qed

lemma parseParams_key:
  assumes "key \<notin> fst ` set acc" and "urlSafe key" and "\<forall>v \<in> set vals. urlSafe v"
    and "vals \<noteq> []"
  shows "parseParams acc (map (\<lambda>v. key @ ''='' @ v) vals @ rest) =
         parseParams (acc @ [(key, vals)]) rest"
proof -
  from assms(4) obtain v vs where vals: "vals = v # vs"
    by (cases vals) auto
  have "parseParam (key @ ''='' @ v) = Inr (key, v)"
    using assms(2,3) vals by (intro parseParam_pair urlSafe_plain) simp_all
  then have "parseParams acc (map (\<lambda>v. key @ ''='' @ v) vals @ rest) =
      parseParams (acc @ [(key, [v])]) (map (\<lambda>v. key @ ''='' @ v) vs @ rest)"
    using assms(1) vals by (simp add: map_of_fresh update_fresh)
  also have "\<dots> = parseParams (acc @ [(key, [v] @ vs)]) rest"
    using assms(1,2,3) vals by (intro parseParams_more_values) simp_all
  finally show ?thesis
    using vals by simp
qed

lemma parseParams_pieces:
  assumes "safeParams params" and "distinct (map fst params)"
    and "fst ` set acc \<inter> fst ` set params = {}"
  shows "parseParams acc (pieces params) = Inr (acc @ params)"
  using assms
proof (induction params arbitrary: acc)
  case Nil
  then show ?case by (simp add: pieces_def)
next
  case (Cons e params)
  obtain key vals where e: "e = (key, vals)"
    by (cases e)
  have safe: "urlSafe key" "\<forall>v \<in> set vals. urlSafe v" "vals \<noteq> []" "safeParams params"
    using Cons.prems(1) e unfolding safeParams_def by auto
  have fresh: "key \<notin> fst ` set acc"
    using Cons.prems(3) e by auto
  have "parseParams acc (pieces (e # params)) =
      parseParams acc (map (\<lambda>v. key @ ''='' @ v) vals @ pieces params)"
    by (simp add: pieces_def e)
  also have "\<dots> = parseParams (acc @ [(key, vals)]) (pieces params)"
    using fresh safe(1,2,3) by (rule parseParams_key)
  also have "\<dots> = Inr ((acc @ [(key, vals)]) @ params)"
    using safe(4) Cons.prems(2,3) e by (intro Cons.IH) auto
  finally show ?case
    by (simp add: e)
qed

lemma pieces_plain:
  assumes "safeParams params"
  shows "\<forall>p \<in> set (pieces params). CHR ''&'' \<notin> set p"
  using assms urlSafe_plain(3) unfolding safeParams_def pieces_def by fastforce

lemma pieces_nonempty:
  assumes "safeParams params" and "params \<noteq> []"
  shows "pieces params \<noteq> []"
  using assms unfolding safeParams_def pieces_def by (cases params) auto

text \<open>The round trip for maps that may hold several values under a key.\<close>

lemma fromString_toString:
  assumes "safeParams params" and "distinct (map fst params)"
  shows "HttpParams_fromString (HttpParams_toString params) = Inr params"
proof (cases "params = []")
  case True
  then show ?thesis
    by (simp add: HttpParams_fromString_def HttpParams_toString_def)
next
  case False
  have nonempty: "[] \<notin> snd ` set params"
    using assms(1) unfolding safeParams_def by force
  have string: "HttpParams_toString params \<noteq> []"
    using False toString_eq_Nil [OF nonempty] by simp
  have "split CHR ''&'' (HttpParams_toString params) = pieces params"
    unfolding toString_pieces [OF assms(1)]
    using pieces_nonempty [OF assms(1) False] pieces_plain [OF assms(1)] by (rule split_join)
  moreover have "parseParams [] (pieces params) = Inr ([] @ params)"
    using assms by (intro parseParams_pieces) simp_all
  ultimately show ?thesis
    using string by (simp add: HttpParams_fromString_def paramParser_def)
qed

lemma safeParams_fragmentMap:
  assumes "\<forall>(key, val) \<in> set m. urlSafe key \<and> urlSafe val"
  shows "safeParams (fragmentMapParams m)"
  using assms unfolding safeParams_def fragmentMapParams_def by auto

lemma keys_fragmentMap: "map fst (fragmentMapParams m) = map fst m"
  unfolding fragmentMapParams_def by (induction m) auto

lemma getFragmentParams_of_navigation:
  assumes "setFragmentParams this params = Inr nav"
    and "activatedRoute that = Some route"
    and "snapshot_fragment route = navigationFragment nav"
  shows "getFragmentParams that = HttpParams_fromString (HttpParams_toString params)"
proof -
  have "orEmpty (navigationFragment nav) = HttpParams_toString params"
    using assms(1)
    by (auto simp: setFragmentParams_def navigationFragment_def orEmpty_def
        split: option.splits if_splits)
  then show ?thesis
    using assms(2,3) by (simp add: getFragmentParams_def)
qed

text \<open>The strings have to be URL-safe: the codec writes a \<^verbatim>\<open>=\<close> in a key as it is, so
  such a key comes back split at it.\<close>

lemma key_with_equals_sign:
  "HttpParams_fromString ''a%3Db=c'' = Inr [(''a=b'', [''c''])]"
  "HttpParams_toString [(''a=b'', [''c''])] = ''a=b=c''"
  "HttpParams_fromString ''a=b=c'' = Inr [(''a'', [''b=c''])]"
  by code_simp+

text \<open>
  C1: for every fragment map \<open>m\<close> with distinct keys whose keys and values are URL-safe
  strings, decoding the string that \<^verbatim>\<open>toString\<close> gives for \<open>m\<close> yields \<open>m\<close> again. The same
  holds from end to end: when \<^verbatim>\<open>setFragmentParams\<close> navigates with \<open>m\<close> and a route snapshot
  holds the fragment of that navigation, \<^verbatim>\<open>getFragmentParams\<close> returns \<open>m\<close>.
\<close>

theorem fragment_round_trip:
  assumes "distinct (map fst m)" and "\<forall>(key, val) \<in> set m. urlSafe key \<and> urlSafe val"
  shows "HttpParams_fromString (HttpParams_toString (fragmentMapParams m)) =
           Inr (fragmentMapParams m) \<and>
         (\<forall>this nav that route.
            setFragmentParams this (fragmentMapParams m) = Inr nav \<and>
            activatedRoute that = Some route \<and>
            snapshot_fragment route = navigationFragment nav \<longrightarrow>
            getFragmentParams that = Inr (fragmentMapParams m))"
proof -
  have "HttpParams_fromString (HttpParams_toString (fragmentMapParams m)) =
      Inr (fragmentMapParams m)"
    using safeParams_fragmentMap [OF assms(2)] assms(1)
    by (intro fromString_toString) (simp_all add: keys_fragmentMap)
  then show ?thesis
    using getFragmentParams_of_navigation by metis
qed

theorem fragment_round_trip_witness:
  "distinct (map fst [(''l'', ''L1''), (''f'', ''F2''), (''o'', ''new'')]) \<and>
   urlSafe ''l'' \<and> urlSafe ''L1'' \<and> urlSafe ''f'' \<and> urlSafe ''F2'' \<and> urlSafe ''o'' \<and>
   urlSafe ''new'' \<and>
   HttpParams_toString (fragmentMapParams [(''l'', ''L1''), (''f'', ''F2''), (''o'', ''new'')]) =
     ''l=L1&f=F2&o=new'' \<and>
   HttpParams_fromString ''l=L1&f=F2&o=new'' =
     Inr (fragmentMapParams [(''l'', ''L1''), (''f'', ''F2''), (''o'', ''new'')])"
proof -
  let ?m = "[(''l'', ''L1''), (''f'', ''F2''), (''o'', ''new'')]"
  have keys: "distinct (map fst ?m)"
    by simp
  have safe: "urlSafe ''l''" "urlSafe ''L1''" "urlSafe ''f''" "urlSafe ''F2''" "urlSafe ''o''"
    "urlSafe ''new''"
    by code_simp+
  then have all_safe: "\<forall>(key, val) \<in> set ?m. urlSafe key \<and> urlSafe val"
    by simp
  have string: "HttpParams_toString (fragmentMapParams ?m) = ''l=L1&f=F2&o=new''"
    by code_simp
  from fragment_round_trip [OF keys all_safe]
  have "HttpParams_fromString (HttpParams_toString (fragmentMapParams ?m)) =
      Inr (fragmentMapParams ?m)"
    by (rule conjunct1)
  then have "HttpParams_fromString ''l=L1&f=F2&o=new'' = Inr (fragmentMapParams ?m)"
    by (simp only: string)
  with keys safe string show ?thesis
    by (intro conjI)
qed

subsection \<open>Fragments that are not lists of pairs\<close>































subsection \<open>The id streams\<close>

lemma rx_map_Next:
  "\<forall>x \<in> set xs. \<not> isl (project x) \<Longrightarrow>
   rx_map project (map Next xs) = map (\<lambda>x. Next (projr (project x))) xs"
  by (induction xs) (auto split: sum.splits)

lemma fragmentParams_dollar_Next:
  assumes "fragment route = map Next frags"
    and "\<forall>f \<in> set frags. \<not> isl (HttpParams_fromString (orEmpty f))"
  shows "fragmentParams_dollar route =
         map Next (map (\<lambda>f. projr (HttpParams_fromString (orEmpty f))) frags)"
  unfolding fragmentParams_dollar_def assms(1)
  by (simp only: rx_map_Next [OF assms(2)] map_map comp_def)

lemma rx_map_total:
  "rx_map (\<lambda>x. Inr (g x)) (map (\<lambda>y. Next (h y)) ys) = map (\<lambda>y. Next (g (h y))) ys"
  by (induction ys) simp_all

text \<open>
  C7, as stated, fails: when the fragment goes from \<^verbatim>\<open>l=a\<close> to \<^verbatim>\<open>l=a&f=b\<close>, only the feature
  key changes, and the layer stream emits \<^verbatim>\<open>a\<close> a second time.
\<close>

theorem layer_stream_reemits_counterexample:
  "layerId_dollar (init (constructor router0) route1) =
     Some [Next (Some ''a''), Next (Some ''a'')] \<and>
   featureId_dollar (init (constructor router0) route1) =
     Some [Next None, Next (Some ''b'')] \<and>
   \<not> distinct_adj [Next (Some ''a''), Next (Some ''a'') :: string option Notification]"
proof -
  have "layerId_dollar (init (constructor router0) route1) =
      Some [Next (Some ''a''), Next (Some ''a'')]"
    by code_simp
  moreover have "featureId_dollar (init (constructor router0) route1) =
      Some [Next None, Next (Some ''b'')]"
    by code_simp
  ultimately show ?thesis
    by simp
qed

text \<open>
  C7, amended: as long as the fragments decode, each of the layer-id, feature-id and
  observation-id streams emits one value for every fragment that the route emits, the
  value of its own key in that fragment, whether or not that value differs from the one
  before.
\<close>

theorem id_streams_follow_fragment:
  assumes "fragment route = map Next frags"
    and "\<forall>f \<in> set frags. \<not> isl (HttpParams_fromString (orEmpty f))"
  shows "layerId_dollar (init this route) =
           Some (map (\<lambda>f. Next (HttpParams_get (projr (HttpParams_fromString (orEmpty f)))
                               LAYER_ID_FRAGMENT_PARAM)) frags) \<and>
         featureId_dollar (init this route) =
           Some (map (\<lambda>f. Next (HttpParams_get (projr (HttpParams_fromString (orEmpty f)))
                               FEATURE_ID_FRAGMENT_PARAM)) frags) \<and>
         observationId_dollar (init this route) =
           Some (map (\<lambda>f. Next (HttpParams_get (projr (HttpParams_fromString (orEmpty f)))
                               OBSERVATION_ID_FRAGMENT_PARAM)) frags)"
  by (simp add: init_def fragmentParams_dollar_Next [OF assms] rx_map_total comp_def)

theorem id_streams_follow_fragment_witness:
  "fragment route1 = map Next [Some ''l=a'', Some ''l=a&f=b''] \<and>
   \<not> isl (HttpParams_fromString (orEmpty (Some ''l=a''))) \<and>
   \<not> isl (HttpParams_fromString (orEmpty (Some ''l=a&f=b''))) \<and>
   layerId_dollar (init (constructor router0) route1) =
     Some [Next (Some ''a''), Next (Some ''a'')] \<and>
   featureId_dollar (init (constructor router0) route1) =
     Some [Next None, Next (Some ''b'')] \<and>
   observationId_dollar (init (constructor router0) route1) =
     Some [Next None, Next None]"
proof -
  let ?frags = "[Some ''l=a'', Some ''l=a&f=b'']"
  have emitted: "fragment route1 = map Next ?frags"
    by (simp add: route1_def)
  have first: "HttpParams_fromString (orEmpty (Some ''l=a'')) = Inr [(''l'', [''a''])]"
    by code_simp
  have second: "HttpParams_fromString (orEmpty (Some ''l=a&f=b'')) =
      Inr [(''l'', [''a'']), (''f'', [''b''])]"
    by code_simp
  have decoded: "\<forall>f \<in> set ?frags. \<not> isl (HttpParams_fromString (orEmpty f))"
    by (simp add: first second)
  have gets:
    "HttpParams_get [(''l'', [''a''])] LAYER_ID_FRAGMENT_PARAM = Some ''a''"
    "HttpParams_get [(''l'', [''a'']), (''f'', [''b''])] LAYER_ID_FRAGMENT_PARAM = Some ''a''"
    "HttpParams_get [(''l'', [''a''])] FEATURE_ID_FRAGMENT_PARAM = None"
    "HttpParams_get [(''l'', [''a'']), (''f'', [''b''])] FEATURE_ID_FRAGMENT_PARAM = Some ''b''"
    "HttpParams_get [(''l'', [''a''])] OBSERVATION_ID_FRAGMENT_PARAM = None"
    "HttpParams_get [(''l'', [''a'']), (''f'', [''b''])] OBSERVATION_ID_FRAGMENT_PARAM = None"
    by code_simp+
  from id_streams_follow_fragment [OF emitted decoded, of "constructor router0"]
  have "layerId_dollar (init (constructor router0) route1) =
      Some [Next (Some ''a''), Next (Some ''a'')]"
  and "featureId_dollar (init (constructor router0) route1) =
      Some [Next None, Next (Some ''b'')]"
  and "observationId_dollar (init (constructor router0) route1) =
      Some [Next None, Next None]"
    by (simp_all add: first second gets)
  with emitted first second show ?thesis
    by simp
qed

end
